theory Spec2Isabelle
  imports Complex_Main "HOL-Library.Word" "HOL-Library.AList"
begin

section \<open>JavaScript values used by the program\<close>

subsection \<open>Strings\<close>

text \<open>
  A JavaScript string is a sequence of UTF-16 code units. Equality, \<^verbatim>\<open>includes\<close>
  and \<^verbatim>\<open>trim\<close> all work on code units, so a string is a list of 16-bit words.
\<close>

type_synonym jsstring = "16 word list"

text \<open>
  \<^verbatim>\<open>String.prototype.trim\<close> removes the ECMAScript WhiteSpace and LineTerminator code
  points from both ends: TAB, LF, VT, FF, CR, SPACE, NBSP, U+1680, U+2000..U+200A,
  U+2028, U+2029, U+202F, U+205F, U+3000 and U+FEFF.
\<close>

definition isWhiteSpace :: "16 word \<Rightarrow> bool" where
  "isWhiteSpace c \<longleftrightarrow>
     c \<in> {0x9, 0xA, 0xB, 0xC, 0xD, 0x20, 0xA0, 0x1680, 0x2028, 0x2029, 0x202F, 0x205F, 0x3000, 0xFEFF}
     \<or> (0x2000 \<le> c \<and> c \<le> 0x200A)"

definition trim :: "jsstring \<Rightarrow> jsstring" where
  "trim s = rev (dropWhile isWhiteSpace (rev (dropWhile isWhiteSpace s)))"

text \<open>\<^verbatim>\<open>s.includes(pat)\<close>: \<open>pat\<close> occurs in \<open>s\<close> as a contiguous run of code units.\<close>

fun startsWith :: "'a list \<Rightarrow> 'a list \<Rightarrow> bool" where
  "startsWith s [] = True"
| "startsWith [] (p # ps) = False"
| "startsWith (c # cs) (p # ps) = (c = p \<and> startsWith cs ps)"

fun js_includes :: "'a list \<Rightarrow> 'a list \<Rightarrow> bool" where
  "js_includes [] pat = startsWith [] pat"
| "js_includes (c # cs) pat = (startsWith (c # cs) pat \<or> js_includes cs pat)"

text \<open>
  \<^verbatim>\<open>String.prototype.toLowerCase\<close> is the Unicode case mapping of the host; the program
  takes it as given, and so do the definitions below, which receive it as the argument
  \<open>lower\<close>. For concrete inputs the following mapping is used: it is the host mapping on
  the code units of the Basic Latin block and of the Cyrillic block U+0400..U+045F, and
  leaves every other code unit alone.
\<close>

definition lowerUnit :: "16 word \<Rightarrow> 16 word" where
  "lowerUnit c =
     (if 0x41 \<le> c \<and> c \<le> 0x5A then c + 0x20
      else if 0x410 \<le> c \<and> c \<le> 0x42F then c + 0x20
      else if 0x400 \<le> c \<and> c \<le> 0x40F then c + 0x50
      else c)"

definition toLowerCase :: "jsstring \<Rightarrow> jsstring" where
  "toLowerCase s = map lowerUnit s"

subsection \<open>Numbers\<close>

text \<open>
  A JavaScript number is an IEEE-754 double. The model keeps the three kinds of
  non-finite value apart and takes a finite value as the real number it denotes:
  rounding, overflow of a finite result and the sign of zero are not modelled.
\<close>

datatype number = Finite real | PosInfinity | NegInfinity | NaN

fun isFinite :: "number \<Rightarrow> bool" where
  "isFinite (Finite x) = True"
| "isFinite _ = False"

fun js_neg :: "number \<Rightarrow> number" where
  "js_neg (Finite x) = Finite (- x)"
| "js_neg PosInfinity = NegInfinity"
| "js_neg NegInfinity = PosInfinity"
| "js_neg NaN = NaN"

fun js_add :: "number \<Rightarrow> number \<Rightarrow> number" where
  "js_add (Finite x) (Finite y) = Finite (x + y)"
| "js_add NaN _ = NaN"
| "js_add _ NaN = NaN"
| "js_add PosInfinity NegInfinity = NaN"
| "js_add NegInfinity PosInfinity = NaN"
| "js_add PosInfinity _ = PosInfinity"
| "js_add NegInfinity _ = NegInfinity"
| "js_add (Finite x) y = y"

definition js_sub :: "number \<Rightarrow> number \<Rightarrow> number" where
  "js_sub a b = js_add a (js_neg b)"





fun js_abs :: "number \<Rightarrow> number" where
  "js_abs (Finite x) = Finite \<bar>x\<bar>"
| "js_abs NaN = NaN"
| "js_abs _ = PosInfinity"

text \<open>\<open>a > b\<close>: false as soon as one side is \<open>NaN\<close>.\<close>

fun js_gt :: "number \<Rightarrow> number \<Rightarrow> bool" where
  "js_gt (Finite x) (Finite y) = (y < x)"
| "js_gt NaN _ = False"
| "js_gt _ NaN = False"
| "js_gt PosInfinity b = (b \<noteq> PosInfinity)"
| "js_gt NegInfinity b = False"
| "js_gt (Finite x) b = (b = NegInfinity)"

definition js_lt :: "number \<Rightarrow> number \<Rightarrow> bool" where
  "js_lt a b = js_gt b a"



text \<open>
  \<^verbatim>\<open>Array.prototype.sort\<close> with a comparator is a stable sort. Its result is determined
  when the comparator is consistent, and is then that of a stable insertion sort, which
  is the model: an element goes before the first element it does not compare greater
  than.
\<close>

fun sortInsert :: "('a \<Rightarrow> 'a \<Rightarrow> real) \<Rightarrow> 'a \<Rightarrow> 'a list \<Rightarrow> 'a list" where
  "sortInsert cmp x [] = [x]"
| "sortInsert cmp x (y # ys) = (if cmp x y \<le> 0 then x # y # ys else y # sortInsert cmp x ys)"

definition arraySort :: "('a \<Rightarrow> 'a \<Rightarrow> real) \<Rightarrow> 'a list \<Rightarrow> 'a list" where
  "arraySort cmp xs = foldr (sortInsert cmp) xs []"

section \<open>types.ts\<close>

record FlowRow =
  row_id :: jsstring
  source :: jsstring
  target :: jsstring
  currentPeriod :: number
  previousPeriod :: number

datatype FlowType = revenue | adjacentRevenue | profit | expense

text \<open>
  An object used as a dictionary (\<^verbatim>\<open>Record<string, T>\<close>) is an association list with
  one entry per key: \<^verbatim>\<open>o[k]\<close> is \<open>map_of o k\<close> and \<^verbatim>\<open>o[k] = v\<close> is
  \<open>AList.update k v o\<close>.
\<close>

record NodeSettings =
  color :: "jsstring option"
  labelSize :: "real option"
  valueSize :: "real option"
  offsetX :: "real option"
  offsetY :: "real option"
  linkColorPriority :: "bool option"
  orderY :: "real option"
  childrenOrder :: "(jsstring \<times> real) list option"

text \<open>The empty object \<^verbatim>\<open>{}\<close> read as node settings: every field is undefined.\<close>

definition emptyNodeSettings :: NodeSettings where
  "emptyNodeSettings =
     \<lparr>color = None, labelSize = None, valueSize = None, offsetX = None, offsetY = None,
      linkColorPriority = None, orderY = None, childrenOrder = None\<rparr>"

text \<open>
  Of \<^verbatim>\<open>ReportSettings\<close> the functions modelled here read the canvas size, the link width
  scale and the per-node settings; the remaining fields (logo, labels, colours, fonts,
  images) play no part in them.
\<close>

record ReportSettings =
  chartWidth :: real
  chartHeight :: real
  linkWidthScale :: real
  nodeSettings :: "(jsstring \<times> NodeSettings) list"


section \<open>utils/sankeyHelpers.ts\<close>

text \<open>The vocabulary of \<^verbatim>\<open>determineFlowType\<close>, as code units (Cyrillic, transliterated in the names).\<close>

definition kw_prochi :: jsstring where
  "kw_prochi = [0x43F, 0x440, 0x43E, 0x447, 0x438]"

definition kw_dokhod :: jsstring where
  "kw_dokhod = [0x434, 0x43E, 0x445, 0x43E, 0x434]"

definition kw_vyruchka :: jsstring where
  "kw_vyruchka = [0x432, 0x44B, 0x440, 0x443, 0x447, 0x43A, 0x430]"

definition kw_pribyl :: jsstring where
  "kw_pribyl = [0x43F, 0x440, 0x438, 0x431, 0x44B, 0x43B, 0x44C]"

definition kw_ebitda :: jsstring where
  "kw_ebitda = [0x65, 0x62, 0x69, 0x74, 0x64, 0x61]"

definition kw_chistaya :: jsstring where
  "kw_chistaya = [0x447, 0x438, 0x441, 0x442, 0x430, 0x44F]"

definition determineFlowType :: "(jsstring \<Rightarrow> jsstring) \<Rightarrow> jsstring \<Rightarrow> jsstring \<Rightarrow> FlowType" where
  "determineFlowType lower src tgt =
     (let sourceLower = lower src; targetLower = lower tgt in
      if js_includes sourceLower kw_prochi
         \<and> (js_includes sourceLower kw_dokhod \<or> js_includes sourceLower kw_vyruchka)
      then adjacentRevenue
      else if js_includes sourceLower kw_vyruchka \<or> js_includes sourceLower kw_dokhod
      then revenue
      else if js_includes targetLower kw_pribyl \<or> js_includes targetLower kw_ebitda
              \<or> js_includes targetLower kw_chistaya
      then profit
      else expense)"



text \<open>
  A JavaScript \<^verbatim>\<open>Set\<close> of strings keeps its elements in insertion order, each once:
  a list, to which \<^verbatim>\<open>add\<close> appends an element that is not yet there.
\<close>

definition setAdd :: "'a list \<Rightarrow> 'a \<Rightarrow> 'a list" where
  "setAdd s x = (if x \<in> set s then s else s @ [x])"

text \<open>
  A \<^verbatim>\<open>Map\<close> from names to positions, filled entry by entry in list order
  (\<^verbatim>\<open>nodeIndex.set(node.name, index)\<close>, \<^verbatim>\<open>new Map(nodes.map(...))\<close>): a later entry
  for the same name replaces the earlier one.
\<close>

definition indexMap :: "jsstring list \<Rightarrow> (jsstring \<rightharpoonup> nat)" where
  "indexMap names =
     fold (\<lambda>(name, index) m. m(name \<mapsto> index)) (zip names [0..<length names]) Map.empty"

text \<open>The decimal digits of an index, for the template string \<^verbatim>\<open>`node-${index}`\<close>.\<close>

fun decimal :: "nat \<Rightarrow> jsstring" where
  "decimal n = (if n < 10 then [0x30 + of_nat n] else decimal (n div 10) @ [0x30 + of_nat (n mod 10)])"

declare decimal.simps [simp del]

record GraphNode =
  gn_name :: jsstring
  gn_id :: jsstring

record GraphLink =
  link_source :: "nat option"
  link_target :: "nat option"
  link_value :: number
  link_flowType :: FlowType
  link_currentValue :: number
  link_previousValue :: number

record Graph =
  nodes :: "GraphNode list"
  links :: "GraphLink list"

text \<open>
  The validity test of a row, \<^verbatim>\<open>row.source.trim() && row.target.trim() && row.currentPeriod > 0\<close>:
  a string is truthy when it is not empty.
\<close>

definition isValidRow :: "FlowRow \<Rightarrow> bool" where
  "isValidRow row \<longleftrightarrow>
     trim (source row) \<noteq> [] \<and> trim (target row) \<noteq> [] \<and> js_gt (currentPeriod row) (Finite 0)"

definition collectNodeNames :: "FlowRow list \<Rightarrow> jsstring list" where
  "collectNodeNames rows =
     fold (\<lambda>row nodeNames.
             let nodeNames = (if trim (source row) \<noteq> [] then setAdd nodeNames (trim (source row))
                              else nodeNames)
             in if trim (target row) \<noteq> [] then setAdd nodeNames (trim (target row))
                else nodeNames)
          rows []"

definition prepareNodesAndLinks :: "(jsstring \<Rightarrow> jsstring) \<Rightarrow> FlowRow list \<Rightarrow> Graph" where
  "prepareNodesAndLinks lower rows =
     (let nodeNames = collectNodeNames rows;
          nodes = map (\<lambda>(name, index). \<lparr>gn_name = name, gn_id = [0x6E, 0x6F, 0x64, 0x65, 0x2D] @ decimal index\<rparr>)
                      (zip nodeNames [0..<length nodeNames]);
          nodeIndex = indexMap (map gn_name nodes);
          links = map (\<lambda>row.
                         \<lparr>link_source = nodeIndex (trim (source row)),
                          link_target = nodeIndex (trim (target row)),
                          link_value = currentPeriod row,
                          link_flowType = determineFlowType lower (source row) (target row),
                          link_currentValue = currentPeriod row,
                          link_previousValue = previousPeriod row\<rparr>)
                      (filter isValidRow rows)
      in \<lparr>nodes = nodes, links = links\<rparr>)"

section \<open>components/SankeyChart.tsx\<close>

text \<open>A node after layout, with the geometry fields the layout fills in.\<close>

record SankeyNode =
  node_name :: jsstring
  x0 :: "real option"
  x1 :: "real option"
  y0 :: "real option"
  y1 :: "real option"
  layer :: "real option"

text \<open>
  The comparator handed to \<^verbatim>\<open>sankey().nodeSort\<close>, in \<^verbatim>\<open>SankeyChart.tsx\<close> and again in
  \<^verbatim>\<open>layoutColumns\<close> of \<^verbatim>\<open>App.tsx\<close>. \<open>graphNodes\<close> is the node list of
  \<^verbatim>\<open>prepareNodesAndLinks\<close>; \<^verbatim>\<open>String.prototype.localeCompare\<close> is the collation of
  the host and is the argument \<open>localeCompare\<close>.
\<close>

definition getNodeSortOrder :: "GraphNode list \<Rightarrow> jsstring \<Rightarrow> nat" where
  "getNodeSortOrder graphNodes nodeName =
     (case indexMap (map gn_name graphNodes) nodeName of None \<Rightarrow> 0 | Some index \<Rightarrow> index)"

definition nodeSort ::
  "(jsstring \<Rightarrow> jsstring \<Rightarrow> int) \<Rightarrow> GraphNode list \<Rightarrow> SankeyNode \<Rightarrow> SankeyNode \<Rightarrow> int" where
  "nodeSort localeCompare graphNodes a b =
     (let diff = int (getNodeSortOrder graphNodes (node_name a))
                 - int (getNodeSortOrder graphNodes (node_name b))
      in if diff \<noteq> 0 then diff else localeCompare (node_name a) (node_name b))"













section \<open>components/BalanceSummary.tsx\<close>

record NodeBalance =
  nb_name :: jsstring
  currentIn :: number
  currentOut :: number
  previousIn :: number
  previousOut :: number
  hasIn :: bool
  hasOut :: bool

text \<open>
  The messages pushed to \<^verbatim>\<open>problems\<close>, by kind, with the row number they print.
\<close>

datatype RowIssue = MissingEndpoint nat | InvalidNumbers nat | NegativeValues nat

definition freshBalance :: "jsstring \<Rightarrow> NodeBalance" where
  "freshBalance name =
     \<lparr>nb_name = name, currentIn = Finite 0, currentOut = Finite 0, previousIn = Finite 0,
      previousOut = Finite 0, hasIn = False, hasOut = False\<rparr>"

text \<open>
  \<^verbatim>\<open>balances.get(k)!.field = ...\<close> changes the object stored under \<open>k\<close>. The key has
  been entered just before in every use, so the lookup does not fail.
\<close>

definition modifyEntry :: "jsstring \<Rightarrow> (NodeBalance \<Rightarrow> NodeBalance) \<Rightarrow> (jsstring \<times> NodeBalance) list \<Rightarrow> (jsstring \<times> NodeBalance) list" where
  "modifyEntry k f al = (case map_of al k of None \<Rightarrow> al | Some v \<Rightarrow> AList.update k (f v) al)"

record BalanceScan =
  bs_index :: nat
  bs_balances :: "(jsstring \<times> NodeBalance) list"
  bs_problems :: "RowIssue list"

definition balanceStep :: "FlowRow \<Rightarrow> BalanceScan \<Rightarrow> BalanceScan" where
  "balanceStep row st0 =
     (let index = bs_index st0;
          st = st0\<lparr>bs_index := index + 1\<rparr>;
          src = trim (source row);
          tgt = trim (target row);
          current = (if isFinite (currentPeriod row) then currentPeriod row else NaN);
          previous = (if isFinite (previousPeriod row) then previousPeriod row else NaN)
      in if src = [] \<or> tgt = []
         then st\<lparr>bs_problems := bs_problems st @ [MissingEndpoint (index + 1)]\<rparr>
         else if \<not> isFinite current \<or> \<not> isFinite previous
         then st\<lparr>bs_problems := bs_problems st @ [InvalidNumbers (index + 1)]\<rparr>
         else
           let st = (if js_lt current (Finite 0) \<or> js_lt previous (Finite 0)
                     then st\<lparr>bs_problems := bs_problems st @ [NegativeValues (index + 1)]\<rparr>
                     else st);
               b = bs_balances st;
               b = (if map_of b src = None then AList.update src (freshBalance src) b else b);
               b = (if map_of b tgt = None then AList.update tgt (freshBalance tgt) b else b);
               b = modifyEntry src (\<lambda>n. n\<lparr>currentOut := js_add (currentOut n) current\<rparr>) b;
               b = modifyEntry src (\<lambda>n. n\<lparr>previousOut := js_add (previousOut n) previous\<rparr>) b;
               b = modifyEntry src (\<lambda>n. n\<lparr>hasOut := True\<rparr>) b;
               b = modifyEntry tgt (\<lambda>n. n\<lparr>currentIn := js_add (currentIn n) current\<rparr>) b;
               b = modifyEntry tgt (\<lambda>n. n\<lparr>previousIn := js_add (previousIn n) previous\<rparr>) b;
               b = modifyEntry tgt (\<lambda>n. n\<lparr>hasIn := True\<rparr>) b
           in st\<lparr>bs_balances := b\<rparr>)"

record Totals =
  total_current :: number
  total_previous :: number

record BalanceAnalysis =
  nodeBalances :: "NodeBalance list"
  sourceTotals :: Totals
  sinkTotals :: Totals
  issues :: "RowIssue list"

definition analyseBalance :: "FlowRow list \<Rightarrow> BalanceAnalysis" where
  "analyseBalance rows =
     (let st = fold balanceStep rows \<lparr>bs_index = 0, bs_balances = [], bs_problems = []\<rparr>;
          balanceList = map snd (bs_balances st);
          sourceNodes = filter (\<lambda>node. hasOut node \<and> \<not> hasIn node) balanceList;
          sinkNodes = filter (\<lambda>node. hasIn node \<and> \<not> hasOut node) balanceList
      in \<lparr>nodeBalances = balanceList,
          sourceTotals =
            \<lparr>total_current = foldl (\<lambda>sum node. js_add sum (currentOut node)) (Finite 0) sourceNodes,
             total_previous = foldl (\<lambda>sum node. js_add sum (previousOut node)) (Finite 0) sourceNodes\<rparr>,
          sinkTotals =
            \<lparr>total_current = foldl (\<lambda>sum node. js_add sum (currentIn node)) (Finite 0) sinkNodes,
             total_previous = foldl (\<lambda>sum node. js_add sum (previousIn node)) (Finite 0) sinkNodes\<rparr>,
          issues = bs_problems st\<rparr>)"

definition epsilon :: number where
  "epsilon = Finite (1 / 1000)"

definition intermediateNodes :: "FlowRow list \<Rightarrow> NodeBalance list" where
  "intermediateNodes rows =
     filter (\<lambda>node. hasIn node \<and> hasOut node) (nodeBalances (analyseBalance rows))"

definition isImbalanced :: "NodeBalance \<Rightarrow> bool" where
  "isImbalanced node =
     (let currentDiff = js_abs (js_sub (currentIn node) (currentOut node));
          previousDiff = js_abs (js_sub (previousIn node) (previousOut node))
      in js_gt currentDiff epsilon \<or> js_gt previousDiff epsilon)"

definition imbalancedNodes :: "FlowRow list \<Rightarrow> NodeBalance list" where
  "imbalancedNodes rows = filter isImbalanced (intermediateNodes rows)"

definition edgeMismatch :: "FlowRow list \<Rightarrow> bool" where
  "edgeMismatch rows =
     (let a = analyseBalance rows;
          edgeCurrentDiff =
            js_abs (js_sub (total_current (sourceTotals a)) (total_current (sinkTotals a)));
          edgePreviousDiff =
            js_abs (js_sub (total_previous (sourceTotals a)) (total_previous (sinkTotals a)))
      in js_gt edgeCurrentDiff epsilon \<or> js_gt edgePreviousDiff epsilon)"

definition isOk :: "FlowRow list \<Rightarrow> bool" where
  "isOk rows \<longleftrightarrow>
     length (imbalancedNodes rows) = 0 \<and> length (issues (analyseBalance rows)) = 0
     \<and> \<not> edgeMismatch rows"

section \<open>App.tsx\<close>


text \<open>The rows that reach the graph: \<^verbatim>\<open>validRows\<close>, the filter every caller applies.\<close>

definition validRows :: "FlowRow list \<Rightarrow> FlowRow list" where
  "validRows rows = filter isValidRow rows"

text \<open>
  \<^verbatim>\<open>parentGroups\<close> (the first \<^verbatim>\<open>App\<close> computes it in place; the second calls it
  \<^verbatim>\<open>buildParentGroups\<close>). The three \<^verbatim>\<open>Map\<close>s are association lists in insertion
  order. \<^verbatim>\<open>Number.isFinite(row.currentPeriod) ? row.currentPeriod : 0\<close> is always finite,
  so the best values are reals.
\<close>

definition finiteOrZero :: "number \<Rightarrow> real" where
  "finiteOrZero x = (case x of Finite v \<Rightarrow> v | _ \<Rightarrow> 0)"

record ParentGroups =
  parentByNode :: "(jsstring \<times> jsstring) list"
  parentChildren :: "(jsstring \<times> jsstring list) list"

record ParentScan =
  scan_parentByNode :: "(jsstring \<times> jsstring) list"
  scan_parentChildren :: "(jsstring \<times> jsstring list) list"
  scan_bestValue :: "(jsstring \<times> real) list"

definition parentStep :: "FlowRow \<Rightarrow> ParentScan \<Rightarrow> ParentScan" where
  "parentStep row st =
     (let src = trim (source row); tgt = trim (target row) in
      if src = [] \<or> tgt = [] then st
      else
        let list = (case map_of (scan_parentChildren st) src of None \<Rightarrow> [] | Some l \<Rightarrow> l);
            st = (if tgt \<notin> set list
                  then st\<lparr>scan_parentChildren :=
                            AList.update src (list @ [tgt]) (scan_parentChildren st)\<rparr>
                  else st);
            currentValue = finiteOrZero (currentPeriod row);
            best = map_of (scan_bestValue st) tgt
        in if (case best of None \<Rightarrow> True | Some b \<Rightarrow> currentValue > b)
           then st\<lparr>scan_bestValue := AList.update tgt currentValue (scan_bestValue st),
                   scan_parentByNode := AList.update tgt src (scan_parentByNode st)\<rparr>
           else st)"

definition buildParentGroups :: "FlowRow list \<Rightarrow> ParentGroups" where
  "buildParentGroups rows =
     (let st = fold parentStep rows
                 \<lparr>scan_parentByNode = [], scan_parentChildren = [], scan_bestValue = []\<rparr>
      in \<lparr>parentByNode = scan_parentByNode st, parentChildren = scan_parentChildren st\<rparr>)"
















section \<open>Inputs of the worked examples\<close>

definition ex_A :: jsstring where "ex_A = [0x41]"
definition ex_B :: jsstring where "ex_B = [0x42]"
definition ex_C :: jsstring where "ex_C = [0x43]"





text \<open>The strings of the classification examples: Cyrillic text, transliterated in the names.\<close>

definition ex_Prochie_dokhody :: jsstring where
  "ex_Prochie_dokhody =
     [0x41F, 0x440, 0x43E, 0x447, 0x438, 0x435, 0x20, 0x434, 0x43E, 0x445, 0x43E, 0x434, 0x44B]"

definition ex_Valovaya_pribyl :: jsstring where
  "ex_Valovaya_pribyl =
     [0x412, 0x430, 0x43B, 0x43E, 0x432, 0x430, 0x44F, 0x20, 0x43F, 0x440, 0x438, 0x431, 0x44B,
      0x43B, 0x44C]"

definition ex_Vyruchka :: jsstring where
  "ex_Vyruchka = [0x412, 0x44B, 0x440, 0x443, 0x447, 0x43A, 0x430]"

definition ex_Sebestoimost :: jsstring where
  "ex_Sebestoimost =
     [0x421, 0x435, 0x431, 0x435, 0x441, 0x442, 0x43E, 0x438, 0x43C, 0x43E, 0x441, 0x442, 0x44C]"

definition ex_EBITDA :: jsstring where
  "ex_EBITDA = [0x45, 0x42, 0x49, 0x54, 0x44, 0x41]"

definition ex_Kommercheskie_raskhody :: jsstring where
  "ex_Kommercheskie_raskhody =
     [0x41A, 0x43E, 0x43C, 0x43C, 0x435, 0x440, 0x447, 0x435, 0x441, 0x43A, 0x438, 0x435, 0x20,
      0x440, 0x430, 0x441, 0x445, 0x43E, 0x434, 0x44B]"

definition ex_X :: jsstring where
  "ex_X = [0x58]"




text \<open>Rows with finite values, for the examples.\<close>

definition ex_row :: "jsstring \<Rightarrow> jsstring \<Rightarrow> real \<Rightarrow> real \<Rightarrow> FlowRow" where
  "ex_row s t c p =
     \<lparr>row_id = [0x72], source = s, target = t, currentPeriod = Finite c, previousPeriod = Finite p\<rparr>"

definition ex_rows_parallel :: "FlowRow list" where
  "ex_rows_parallel = [ex_row ex_A ex_B 10 8, ex_row ex_A ex_B 5 5, ex_row ex_C ex_A 2 1]"

definition ex_row_zero :: FlowRow where
  "ex_row_zero = ex_row ex_A ex_B 0 0"

definition ex_row_AC :: FlowRow where
  "ex_row_AC = ex_row ex_A ex_C 5 5"


text \<open>
  Comparison by code units, standing in for \<^verbatim>\<open>localeCompare\<close> in the examples, whose
  names are single capital letters.
\<close>

fun codeUnitCompare :: "jsstring \<Rightarrow> jsstring \<Rightarrow> int" where
  "codeUnitCompare [] [] = 0"
| "codeUnitCompare [] (d # ds) = - 1"
| "codeUnitCompare (c # cs) [] = 1"
| "codeUnitCompare (c # cs) (d # ds) =
     (if c < d then - 1 else if d < c then 1 else codeUnitCompare cs ds)"

text \<open>
  Settings in which the parent A ranks its child C before its child B, and the layout
  nodes of B and C, side by side in the column after A.
\<close>

definition ex_settings_C_before_B :: ReportSettings where
  "ex_settings_C_before_B =
     \<lparr>chartWidth = 1200, chartHeight = 700, linkWidthScale = 1,
      nodeSettings = [(ex_A, emptyNodeSettings\<lparr>childrenOrder := Some [(ex_B, 1), (ex_C, 0)]\<rparr>)]\<rparr>"

definition ex_rows_fan :: "FlowRow list" where
  "ex_rows_fan = [ex_row ex_A ex_B 10 8, ex_row ex_A ex_C 5 5]"

definition ex_node_B :: SankeyNode where
  "ex_node_B =
     \<lparr>node_name = ex_B, x0 = Some 930, x1 = Some 950, y0 = Some 80, y1 = Some 440,
      layer = Some 1\<rparr>"

definition ex_node_C :: SankeyNode where
  "ex_node_C =
     \<lparr>node_name = ex_C, x0 = Some 930, x1 = Some 950, y0 = Some 480, y1 = Some 660,
      layer = Some 1\<rparr>"

text \<open>
  Two rows into C: from A with the value \<open>Infinity\<close> (as pasting the text "Infinity"
  into the table gives), then from B with the value 5.
\<close>

definition ex_rows_infinite :: "FlowRow list" where
  "ex_rows_infinite =
     [\<lparr>row_id = [0x72], source = ex_A, target = ex_C, currentPeriod = PosInfinity,
       previousPeriod = Finite 0\<rparr>,
      ex_row ex_B ex_C 5 5]"

text \<open>Two rows into C with the same value: the first source, A, stays the parent.\<close>

definition ex_rows_tie :: "FlowRow list" where
  "ex_rows_tie = [ex_row ex_A ex_C 5 5, ex_row ex_B ex_C 5 3, ex_row ex_B ex_A 1 1]"






section \<open>Notions used to state the properties\<close>

text \<open>\<open>pat\<close> occurs in \<open>s\<close>: the mathematical reading of "contains".\<close>

definition occurs :: "'a list \<Rightarrow> 'a list \<Rightarrow> bool" where
  "occurs pat s \<longleftrightarrow> (\<exists>pre suf. s = pre @ pat @ suf)"




text \<open>
  The names a row list mentions, in row order (source before target), the position at
  which a name is first seen in such a sequence, and the links of a graph with their
  end points resolved to node names.
\<close>

definition endpoints :: "FlowRow list \<Rightarrow> jsstring list" where
  "endpoints rows = concat (map (\<lambda>row. [trim (source row), trim (target row)]) rows)"

definition firstPos :: "'a \<Rightarrow> 'a list \<Rightarrow> nat" where
  "firstPos a xs = length (takeWhile (\<lambda>y. y \<noteq> a) xs)"

definition addAll :: "'a list \<Rightarrow> 'a list \<Rightarrow> 'a list" where
  "addAll xs acc = fold (\<lambda>x s. setAdd s x) xs acc"


text \<open>
  The comparator as the specification words it: a node that is a child in some parent's
  \<^verbatim>\<open>childrenOrder\<close> is placed by that rank, any other node by its first-seen position,
  and the names break ties.
\<close>

definition childRank :: "ReportSettings \<Rightarrow> jsstring \<Rightarrow> real option" where
  "childRank settings nodeName =
     (case List.map_filter
             (\<lambda>(parent, ns). case childrenOrder ns of None \<Rightarrow> None
                                | Some order \<Rightarrow> map_of order nodeName)
             (nodeSettings settings)
      of [] \<Rightarrow> None | rank # _ \<Rightarrow> Some rank)"

definition spec_nodeSort ::
  "ReportSettings \<Rightarrow> (jsstring \<Rightarrow> jsstring \<Rightarrow> int) \<Rightarrow> GraphNode list \<Rightarrow> SankeyNode \<Rightarrow> SankeyNode \<Rightarrow> real" where
  "spec_nodeSort settings localeCompare graphNodes a b =
     (let rank = (\<lambda>n. case childRank settings (node_name n) of
                         Some r \<Rightarrow> r
                       | None \<Rightarrow> real (getNodeSortOrder graphNodes (node_name n)));
          diff = rank a - rank b
      in if diff \<noteq> 0 then diff else real_of_int (localeCompare (node_name a) (node_name b)))"

text \<open>
  The rows that flow into a node: both names present, the trimmed target being the node.
\<close>

definition incoming :: "jsstring \<Rightarrow> FlowRow list \<Rightarrow> FlowRow list" where
  "incoming t rows =
     filter (\<lambda>row. trim (source row) \<noteq> [] \<and> trim (target row) \<noteq> [] \<and> trim (target row) = t) rows"

text \<open>Proof device: the best incoming source so far and its value.\<close>

definition pickBest :: "FlowRow \<Rightarrow> (jsstring \<times> real) option \<Rightarrow> (jsstring \<times> real) option" where
  "pickBest row best =
     (case best of
        None \<Rightarrow> Some (trim (source row), finiteOrZero (currentPeriod row))
      | Some (s, v) \<Rightarrow>
          if finiteOrZero (currentPeriod row) > v
          then Some (trim (source row), finiteOrZero (currentPeriod row))
          else Some (s, v))"


definition flowSum :: "(FlowRow \<Rightarrow> jsstring) \<Rightarrow> (FlowRow \<Rightarrow> number) \<Rightarrow> jsstring \<Rightarrow> FlowRow list \<Rightarrow> real" where
  "flowSum side period n rows =
     sum_list (map (\<lambda>row. finiteOrZero (period row)) (filter (\<lambda>row. trim (side row) = n) rows))"

definition expectedBalance :: "jsstring \<Rightarrow> FlowRow list \<Rightarrow> NodeBalance" where
  "expectedBalance n rows =
     \<lparr>nb_name = n,
      currentIn = Finite (flowSum target currentPeriod n rows),
      currentOut = Finite (flowSum source currentPeriod n rows),
      previousIn = Finite (flowSum target previousPeriod n rows),
      previousOut = Finite (flowSum source previousPeriod n rows),
      hasIn = (n \<in> set (map (\<lambda>row. trim (target row)) rows)),
      hasOut = (n \<in> set (map (\<lambda>row. trim (source row)) rows))\<rparr>"















section \<open>Properties of the string primitives\<close>

lemma startsWith_iff: "startsWith s pat \<longleftrightarrow> (\<exists>suf. s = pat @ suf)"
  by (induction s pat rule: startsWith.induct) auto

lemma includes_iff: "js_includes s pat \<longleftrightarrow> (\<exists>pre suf. s = pre @ pat @ suf)"
proof (induction s)
  case Nil
  show ?case by (auto simp: startsWith_iff)
next
  case (Cons c cs)
  show ?case
  proof
    assume "js_includes (c # cs) pat"
    then consider "startsWith (c # cs) pat" | "js_includes cs pat" by auto
    then show "\<exists>pre suf. c # cs = pre @ pat @ suf"
    proof cases
      case 1
      then obtain suf where "c # cs = pat @ suf" by (auto simp: startsWith_iff)
      then have "c # cs = [] @ pat @ suf" by simp
      then show ?thesis by blast
    next
      case 2
      then obtain pre suf where "cs = pre @ pat @ suf" using Cons.IH by blast
      then have "c # cs = (c # pre) @ pat @ suf" by simp
      then show ?thesis by blast
    qed
  next
    assume "\<exists>pre suf. c # cs = pre @ pat @ suf"
    then obtain pre suf where eq: "c # cs = pre @ pat @ suf" by blast
    show "js_includes (c # cs) pat"
    proof (cases pre)
      case Nil
      with eq have "startsWith (c # cs) pat" by (auto simp: startsWith_iff)
      then show ?thesis by simp
    next
      case (Cons p pre')
      with eq have "cs = pre' @ pat @ suf" by simp
      then have "js_includes cs pat" using Cons.IH by blast
      then show ?thesis by simp
    qed
  qed
qed

lemma js_includes_occurs: "js_includes s pat \<longleftrightarrow> occurs pat s"
  by (simp add: includes_iff occurs_def)

section \<open>Flow Classifier\<close>

text \<open>
  Claim C1. \<^verbatim>\<open>determineFlowType\<close> is a function of the lower-cased source and target
  only, and resolves in the fixed order adjacentRevenue, revenue, profit, expense:
  adjacentRevenue when the lower-cased source contains the miscellaneous qualifier
  together with an income or revenue term; else revenue when the source contains a
  revenue or income term; else profit when the target contains a profit, EBITDA or
  net-result term; else expense. A source-side revenue signal therefore wins over any
  target, and the four examples of the specification hold.
\<close>

theorem determineFlowType_priority:
  "determineFlowType lower src tgt =
     (if occurs kw_prochi (lower src)
         \<and> (occurs kw_dokhod (lower src) \<or> occurs kw_vyruchka (lower src))
      then adjacentRevenue
      else if occurs kw_vyruchka (lower src) \<or> occurs kw_dokhod (lower src) then revenue
      else if occurs kw_pribyl (lower tgt) \<or> occurs kw_ebitda (lower tgt)
              \<or> occurs kw_chistaya (lower tgt) then profit
      else expense)
   \<and> (occurs kw_vyruchka (lower src) \<or> occurs kw_dokhod (lower src)
        \<longrightarrow> determineFlowType lower src tgt \<in> {adjacentRevenue, revenue})
   \<and> (lower src = lower src' \<and> lower tgt = lower tgt'
        \<longrightarrow> determineFlowType lower src tgt = determineFlowType lower src' tgt')
   \<and> determineFlowType toLowerCase ex_Prochie_dokhody ex_Valovaya_pribyl = adjacentRevenue
   \<and> determineFlowType toLowerCase ex_Vyruchka ex_Sebestoimost = revenue
   \<and> determineFlowType toLowerCase ex_Valovaya_pribyl ex_EBITDA = profit
   \<and> determineFlowType toLowerCase ex_Kommercheskie_raskhody ex_X = expense"
proof -
  have chain: "determineFlowType lower src tgt =
     (if occurs kw_prochi (lower src)
         \<and> (occurs kw_dokhod (lower src) \<or> occurs kw_vyruchka (lower src))
      then adjacentRevenue
      else if occurs kw_vyruchka (lower src) \<or> occurs kw_dokhod (lower src) then revenue
      else if occurs kw_pribyl (lower tgt) \<or> occurs kw_ebitda (lower tgt)
              \<or> occurs kw_chistaya (lower tgt) then profit
      else expense)"
    by (simp add: determineFlowType_def Let_def js_includes_occurs)
  have wins: "occurs kw_vyruchka (lower src) \<or> occurs kw_dokhod (lower src)
        \<longrightarrow> determineFlowType lower src tgt \<in> {adjacentRevenue, revenue}"
    by (simp add: determineFlowType_def Let_def js_includes_occurs)
  have same: "lower src = lower src' \<and> lower tgt = lower tgt'
        \<longrightarrow> determineFlowType lower src tgt = determineFlowType lower src' tgt'"
    by (simp add: determineFlowType_def Let_def)
  have e1: "determineFlowType toLowerCase ex_Prochie_dokhody ex_Valovaya_pribyl = adjacentRevenue"
    by code_simp
  have e2: "determineFlowType toLowerCase ex_Vyruchka ex_Sebestoimost = revenue"
    by code_simp
  have e3: "determineFlowType toLowerCase ex_Valovaya_pribyl ex_EBITDA = profit"
    by code_simp
  have e4: "determineFlowType toLowerCase ex_Kommercheskie_raskhody ex_X = expense"
    by code_simp
  from chain wins same e1 e2 e3 e4 show ?thesis by blast
qed

text \<open>
  The priority at work: the source "Vyruchka" carries a revenue term and the target
  "EBITDA" a profit term, and the row is classified as revenue.
\<close>

theorem determineFlowType_priority_witness:
  "js_includes (toLowerCase ex_Vyruchka) kw_vyruchka
   \<and> js_includes (toLowerCase ex_EBITDA) kw_ebitda
   \<and> determineFlowType toLowerCase ex_Vyruchka ex_EBITDA = revenue"
proof -
  have v: "js_includes (toLowerCase ex_Vyruchka) kw_vyruchka" by code_simp
  have e: "js_includes (toLowerCase ex_EBITDA) kw_ebitda" by code_simp
  have np: "\<not> js_includes (toLowerCase ex_Vyruchka) kw_prochi" by code_simp
  from determineFlowType_priority [of toLowerCase ex_Vyruchka ex_EBITDA] v np
  have "determineFlowType toLowerCase ex_Vyruchka ex_EBITDA = revenue"
    by (simp add: js_includes_occurs)
  with v e show ?thesis by simp
qed

section \<open>Change between two periods\<close>



section \<open>Offset clamping\<close>


















section \<open>Graph Builder\<close>

lemma fold_upd_map_of:
  "fold (\<lambda>(name, index) m. m(name \<mapsto> index)) ps m = m ++ map_of (rev ps)"
  by (induction ps arbitrary: m) (auto simp: map_add_upd_left fun_eq_iff map_add_def split: option.splits)

lemma indexMap_map_of: "indexMap names = map_of (rev (zip names [0..<length names]))"
  by (simp add: indexMap_def fold_upd_map_of)

lemma indexMap_SomeD:
  assumes "indexMap names x = Some i"
  shows "i < length names \<and> names ! i = x"
proof -
  from assms have "(x, i) \<in> set (zip names [0..<length names])"
    by (auto simp: indexMap_map_of dest: map_of_SomeD)
  then show ?thesis by (auto simp: set_zip)
qed

lemma indexMap_nth:
  assumes "distinct names" and "i < length names"
  shows "indexMap names (names ! i) = Some i"
proof -
  have d: "distinct (map fst (rev (zip names [0..<length names])))"
    using assms(1) by (simp add: rev_map [symmetric])
  have m: "(names ! i, i) \<in> set (rev (zip names [0..<length names]))"
    using assms(2) by (auto simp: set_zip)
  from map_of_is_SomeI [OF d m] show ?thesis by (simp add: indexMap_map_of)
qed

lemma indexMap_mem:
  assumes "distinct names" and "x \<in> set names"
  shows "\<exists>i. indexMap names x = Some i \<and> i < length names \<and> names ! i = x"
proof -
  from assms(2) obtain i where "i < length names" "names ! i = x" by (auto simp: in_set_conv_nth)
  with indexMap_nth [OF assms(1), of i] show ?thesis by auto
qed

lemma addAll_Nil [simp]: "addAll [] acc = acc"
  by (simp add: addAll_def)

lemma addAll_Cons [simp]: "addAll (x # xs) acc = addAll xs (setAdd acc x)"
  by (simp add: addAll_def)

lemma set_setAdd [simp]: "set (setAdd s x) = insert x (set s)"
  by (auto simp: setAdd_def)

lemma distinct_setAdd [simp]: "distinct (setAdd s x) = distinct s"
  by (auto simp: setAdd_def)

lemma set_addAll: "set (addAll xs acc) = set acc \<union> set xs"
  by (induction xs arbitrary: acc) auto

lemma distinct_addAll: "distinct acc \<Longrightarrow> distinct (addAll xs acc)"
  by (induction xs arbitrary: acc) auto

lemma firstPos_append_mem: "a \<in> set pre \<Longrightarrow> firstPos a (pre @ xs) = firstPos a pre"
  by (simp add: firstPos_def takeWhile_append1)

lemma firstPos_less: "a \<in> set pre \<Longrightarrow> firstPos a pre < length pre"
  unfolding firstPos_def by (induction pre) auto

lemma firstPos_fresh: "a \<notin> set pre \<Longrightarrow> firstPos a (pre @ a # xs) = length pre"
  unfolding firstPos_def by (induction pre) auto

lemma order_addAll:
  assumes "set acc = set pre"
      and "sorted_wrt (\<lambda>a b. firstPos a pre < firstPos b pre) acc"
  shows "sorted_wrt (\<lambda>a b. firstPos a (pre @ xs) < firstPos b (pre @ xs)) (addAll xs acc)"
  using assms
proof (induction xs arbitrary: acc pre)
  case Nil
  then show ?case by simp
next
  case (Cons x xs)
  let ?P = "\<lambda>a b. firstPos a (pre @ [x]) < firstPos b (pre @ [x])"
  have old: "sorted_wrt ?P acc"
    using Cons.prems(2)
    by (rule sorted_wrt_mono_rel [rotated]) (simp add: Cons.prems(1) firstPos_append_mem)
  have "sorted_wrt ?P (setAdd acc x)"
  proof (cases "x \<in> set acc")
    case True
    with old show ?thesis by (simp add: setAdd_def)
  next
    case False
    then have fresh: "x \<notin> set pre" using Cons.prems(1) by simp
    have "\<forall>a\<in>set acc. ?P a x"
      using Cons.prems(1) firstPos_fresh [OF fresh, of "[]"]
      by (auto simp: firstPos_append_mem firstPos_less)
    with old False show ?thesis by (simp add: setAdd_def sorted_wrt_append)
  qed
  moreover have "set (setAdd acc x) = set (pre @ [x])" using Cons.prems(1) by simp
  ultimately have "sorted_wrt (\<lambda>a b. firstPos a ((pre @ [x]) @ xs) < firstPos b ((pre @ [x]) @ xs))
                     (addAll xs (setAdd acc x))"
    by (rule Cons.IH [rotated])
  then show ?case by simp
qed

lemma collect_fold_addAll:
  "fold (\<lambda>row nodeNames.
             let nodeNames = (if trim (source row) \<noteq> [] then setAdd nodeNames (trim (source row))
                              else nodeNames)
             in if trim (target row) \<noteq> [] then setAdd nodeNames (trim (target row))
                else nodeNames) rows acc
   = addAll (filter (\<lambda>n. n \<noteq> []) (endpoints rows)) acc"
  by (induction rows arbitrary: acc) (simp_all add: endpoints_def Let_def)

lemma collectNodeNames_addAll:
  "collectNodeNames rows = addAll (filter (\<lambda>n. n \<noteq> []) (endpoints rows)) []"
  by (simp add: collectNodeNames_def collect_fold_addAll)

lemma distinct_collectNodeNames: "distinct (collectNodeNames rows)"
  by (simp add: collectNodeNames_addAll distinct_addAll)

lemma set_collectNodeNames: "set (collectNodeNames rows) = {n \<in> set (endpoints rows). n \<noteq> []}"
  by (auto simp: collectNodeNames_addAll set_addAll)

lemma order_collectNodeNames:
  "sorted_wrt (\<lambda>a b. firstPos a (filter (\<lambda>n. n \<noteq> []) (endpoints rows))
                      < firstPos b (filter (\<lambda>n. n \<noteq> []) (endpoints rows)))
     (collectNodeNames rows)"
  using order_addAll [of "[]" "[]" "filter (\<lambda>n. n \<noteq> []) (endpoints rows)"]
  by (simp add: collectNodeNames_addAll)

lemma names_prepare: "map gn_name (nodes (prepareNodesAndLinks lower rows)) = collectNodeNames rows"
  by (simp add: prepareNodesAndLinks_def Let_def comp_def case_prod_beta flip: map_map [unfolded comp_def]) 


lemma links_prepare:
  "links (prepareNodesAndLinks lower rows) =
     map (\<lambda>row. \<lparr>link_source = indexMap (collectNodeNames rows) (trim (source row)),
                  link_target = indexMap (collectNodeNames rows) (trim (target row)),
                  link_value = currentPeriod row,
                  link_flowType = determineFlowType lower (source row) (target row),
                  link_currentValue = currentPeriod row,
                  link_previousValue = previousPeriod row\<rparr>)
         (filter isValidRow rows)"
  using names_prepare [of lower rows]
  by (simp add: prepareNodesAndLinks_def Let_def)

lemma valid_endpoints_collected:
  assumes "row \<in> set rows" and "isValidRow row"
  shows "trim (source row) \<in> set (collectNodeNames rows)"
    and "trim (target row) \<in> set (collectNodeNames rows)"
  using assms by (auto simp: set_collectNodeNames endpoints_def isValidRow_def)



lemmas example_rows_defs = ex_rows_parallel_def ex_row_zero_def ex_row_AC_def ex_row_def
  ex_A_def ex_B_def ex_C_def

lemmas row_eval_defs = isValidRow_def trim_def isWhiteSpace_def collectNodeNames_def setAdd_def
  endpoints_def validRows_def

lemma collectNodeNames_parallel: "collectNodeNames ex_rows_parallel = [[0x41], [0x42], [0x43]]"
  by (simp add: example_rows_defs row_eval_defs)

text \<open>
  Claim C5. For every list of valid rows the node list holds each trimmed source and
  target name exactly once, ordered by where the name is first seen across the rows;
  the link list has one link per row, in row order, whose source and target indices
  point at the nodes named by the row and whose values are the row's; so rows with the
  same source and target give parallel links.
\<close>

theorem prepareNodesAndLinks_valid_rows:
  assumes valid: "\<forall>row \<in> set rows. isValidRow row"
  shows "(let g = prepareNodesAndLinks lower rows; names = map gn_name (nodes g)
          in distinct names
             \<and> set names = set (endpoints rows)
             \<and> sorted_wrt (\<lambda>a b. firstPos a (endpoints rows) < firstPos b (endpoints rows)) names
             \<and> length (links g) = length rows
             \<and> (\<forall>i < length rows.
                  (\<exists>s t. link_source (links g ! i) = Some s \<and> s < length names
                          \<and> names ! s = trim (source (rows ! i))
                          \<and> link_target (links g ! i) = Some t \<and> t < length names
                          \<and> names ! t = trim (target (rows ! i)))
                  \<and> link_value (links g ! i) = currentPeriod (rows ! i)
                  \<and> link_currentValue (links g ! i) = currentPeriod (rows ! i)
                  \<and> link_previousValue (links g ! i) = previousPeriod (rows ! i)
                  \<and> link_flowType (links g ! i)
                      = determineFlowType lower (source (rows ! i)) (target (rows ! i))))"
proof -
  let ?names = "collectNodeNames rows"
  have nonempty: "filter (\<lambda>n. n \<noteq> []) (endpoints rows) = endpoints rows"
    using valid by (auto simp: endpoints_def isValidRow_def filter_id_conv)
  have all: "filter isValidRow rows = rows" using valid by (simp add: filter_id_conv)
  have s: "set ?names = set (endpoints rows)"
    using nonempty by (metis collectNodeNames_addAll set_addAll empty_set sup_bot_left)
  have o: "sorted_wrt (\<lambda>a b. firstPos a (endpoints rows) < firstPos b (endpoints rows)) ?names"
    using order_collectNodeNames [of rows] by (simp add: nonempty)
  have l: "\<forall>i < length rows.
             (\<exists>s t. indexMap ?names (trim (source (rows ! i))) = Some s \<and> s < length ?names
                     \<and> ?names ! s = trim (source (rows ! i))
                     \<and> indexMap ?names (trim (target (rows ! i))) = Some t \<and> t < length ?names
                     \<and> ?names ! t = trim (target (rows ! i)))"
  proof (intro allI impI)
    fix i assume i: "i < length rows"
    then have mem: "rows ! i \<in> set rows" by simp
    with valid have v: "isValidRow (rows ! i)" by blast
    from indexMap_mem [OF distinct_collectNodeNames valid_endpoints_collected(1) [OF mem v]]
         indexMap_mem [OF distinct_collectNodeNames valid_endpoints_collected(2) [OF mem v]]
    show "\<exists>s t. indexMap ?names (trim (source (rows ! i))) = Some s \<and> s < length ?names
                     \<and> ?names ! s = trim (source (rows ! i))
                     \<and> indexMap ?names (trim (target (rows ! i))) = Some t \<and> t < length ?names
                     \<and> ?names ! t = trim (target (rows ! i))"
      by blast
  qed
  show ?thesis
    unfolding Let_def names_prepare links_prepare all
    using distinct_collectNodeNames [of rows] s o l by simp
qed

theorem prepareNodesAndLinks_valid_rows_witness:
  "validRows ex_rows_parallel = ex_rows_parallel
   \<and> map gn_name (nodes (prepareNodesAndLinks toLowerCase ex_rows_parallel)) = [ex_A, ex_B, ex_C]
   \<and> length (links (prepareNodesAndLinks toLowerCase ex_rows_parallel)) = 3
   \<and> map link_source (links (prepareNodesAndLinks toLowerCase ex_rows_parallel))
       = [Some 0, Some 0, Some 2]
   \<and> map link_target (links (prepareNodesAndLinks toLowerCase ex_rows_parallel))
       = [Some 1, Some 1, Some 0]"
proof -
  have v: "\<forall>row \<in> set ex_rows_parallel. isValidRow row"
    by (simp add: example_rows_defs row_eval_defs)
  have n: "map gn_name (nodes (prepareNodesAndLinks toLowerCase ex_rows_parallel))
             = [ex_A, ex_B, ex_C]"
    by (simp add: names_prepare collectNodeNames_parallel) (simp add: example_rows_defs)
  have s: "map link_source (links (prepareNodesAndLinks toLowerCase ex_rows_parallel))
             = [Some 0, Some 0, Some 2]"
    by (simp add: links_prepare collectNodeNames_parallel comp_def)
       (simp add: example_rows_defs row_eval_defs indexMap_map_of)
  have t: "map link_target (links (prepareNodesAndLinks toLowerCase ex_rows_parallel))
             = [Some 1, Some 1, Some 0]"
    by (simp add: links_prepare collectNodeNames_parallel comp_def)
       (simp add: example_rows_defs row_eval_defs indexMap_map_of)
  from prepareNodesAndLinks_valid_rows [OF v, of toLowerCase]
  have "length (links (prepareNodesAndLinks toLowerCase ex_rows_parallel))
          = length ex_rows_parallel"
    by (simp add: Let_def)
  then have "length (links (prepareNodesAndLinks toLowerCase ex_rows_parallel)) = 3"
    by (simp add: ex_rows_parallel_def)
  moreover have "validRows ex_rows_parallel = ex_rows_parallel"
    using v by (simp add: validRows_def filter_id_conv)
  ultimately show ?thesis using n s t by simp
qed




section \<open>Layout comparator\<close>

lemma collectNodeNames_fan: "collectNodeNames ex_rows_fan = [[0x41], [0x42], [0x43]]"
  by (simp add: ex_rows_fan_def example_rows_defs row_eval_defs)

text \<open>
  Claim C2 describes the comparator the layout should use: a node that is ranked in
  some parent's \<^verbatim>\<open>childrenOrder\<close> goes by that rank, before the first-seen order is
  looked at. The comparator handed to \<^verbatim>\<open>sankey().nodeSort\<close> does not take the settings:
  it compares first-seen positions and then names, so the ranks that
  \<^verbatim>\<open>moveNodeByDirection\<close> stores never reach the layout. With the rows from A to B
  and from A to C, and A ranking C (rank 0) before B (rank 1), the comparator of the
  claim puts C first, and the comparator of the program still puts B first.
\<close>

theorem nodeSort_ignores_childrenOrder:
  "childRank ex_settings_C_before_B (node_name ex_node_B) = Some 1
   \<and> childRank ex_settings_C_before_B (node_name ex_node_C) = Some 0
   \<and> spec_nodeSort ex_settings_C_before_B codeUnitCompare
        (nodes (prepareNodesAndLinks toLowerCase ex_rows_fan)) ex_node_B ex_node_C > 0
   \<and> nodeSort codeUnitCompare
        (nodes (prepareNodesAndLinks toLowerCase ex_rows_fan)) ex_node_B ex_node_C < 0"
  by (simp add: childRank_def spec_nodeSort_def nodeSort_def getNodeSortOrder_def names_prepare
      collectNodeNames_fan ex_settings_C_before_B_def ex_node_B_def ex_node_C_def
      emptyNodeSettings_def List.map_filter_simps indexMap_map_of Let_def ex_A_def ex_B_def
      ex_C_def)

section \<open>Dominant parent\<close>

lemma parentStep_other:
  assumes "\<not> (trim (source row) \<noteq> [] \<and> trim (target row) \<noteq> [] \<and> trim (target row) = t)"
  shows "map_of (scan_parentByNode (parentStep row st)) t = map_of (scan_parentByNode st) t"
    and "map_of (scan_bestValue (parentStep row st)) t = map_of (scan_bestValue st) t"
  using assms by (auto simp: parentStep_def Let_def update_conv' split: option.splits)

lemma parentStep_incoming:
  assumes "trim (source row) \<noteq> []" "trim (target row) \<noteq> []" "trim (target row) = t"
      and "map_of (scan_parentByNode st) t = map_option fst b"
      and "map_of (scan_bestValue st) t = map_option snd b"
  shows "map_of (scan_parentByNode (parentStep row st)) t = map_option fst (pickBest row b)"
    and "map_of (scan_bestValue (parentStep row st)) t = map_option snd (pickBest row b)"
  using assms
  by (auto simp: parentStep_def pickBest_def Let_def update_conv' split: option.splits prod.splits)

lemma fold_parentStep:
  assumes "map_of (scan_parentByNode st) t = map_option fst b"
      and "map_of (scan_bestValue st) t = map_option snd b"
  shows "map_of (scan_parentByNode (fold parentStep rows st)) t
           = map_option fst (fold pickBest (incoming t rows) b)
       \<and> map_of (scan_bestValue (fold parentStep rows st)) t
           = map_option snd (fold pickBest (incoming t rows) b)"
  using assms
proof (induction rows arbitrary: st b)
  case Nil
  then show ?case by (simp add: incoming_def)
next
  case (Cons row rows)
  show ?case
  proof (cases "trim (source row) \<noteq> [] \<and> trim (target row) \<noteq> [] \<and> trim (target row) = t")
    case True
    then have inc: "incoming t (row # rows) = row # incoming t rows" by (auto simp: incoming_def)
    from True have s: "trim (source row) \<noteq> []" and t1: "trim (target row) \<noteq> []"
      and t2: "trim (target row) = t" by blast+
    note step = parentStep_incoming [OF s t1 t2 Cons.prems]
    from Cons.IH [OF step] show ?thesis by (simp add: inc)
  next
    case False
    then have inc: "incoming t (row # rows) = incoming t rows" by (auto simp: incoming_def)
    from Cons.prems
    have "map_of (scan_parentByNode (parentStep row st)) t = map_option fst b"
         "map_of (scan_bestValue (parentStep row st)) t = map_option snd b"
      by (simp_all add: parentStep_other [OF False])
    from Cons.IH [OF this] show ?thesis by (simp add: inc)
  qed
qed

lemma parentByNode_pick:
  "map_of (parentByNode (buildParentGroups rows)) t
     = map_option fst (fold pickBest (incoming t rows) None)"
  using fold_parentStep [of "\<lparr>scan_parentByNode = [], scan_parentChildren = [], scan_bestValue = []\<rparr>" t None rows]
  by (simp add: buildParentGroups_def Let_def)

lemma fold_pickBest_first_max:
  assumes "inc \<noteq> []"
  shows "\<exists>k < length inc.
           fold pickBest inc None
             = Some (trim (source (inc ! k)), finiteOrZero (currentPeriod (inc ! k)))
         \<and> (\<forall>j < length inc. finiteOrZero (currentPeriod (inc ! j))
                               \<le> finiteOrZero (currentPeriod (inc ! k)))
         \<and> (\<forall>j < k. finiteOrZero (currentPeriod (inc ! j))
                      < finiteOrZero (currentPeriod (inc ! k)))"
  using assms
proof (induction inc rule: rev_induct)
  case Nil
  then show ?case by simp
next
  case (snoc x xs)
  let ?v = "\<lambda>r. finiteOrZero (currentPeriod r)"
  show ?case
  proof (cases "xs = []")
    case True
    then show ?thesis by (simp add: pickBest_def)
  next
    case False
    from snoc.IH [OF False] obtain k where k: "k < length xs"
      and best: "fold pickBest xs None = Some (trim (source (xs ! k)), ?v (xs ! k))"
      and mx: "\<forall>j < length xs. ?v (xs ! j) \<le> ?v (xs ! k)"
      and fst: "\<forall>j < k. ?v (xs ! j) < ?v (xs ! k)" by blast
    have le: "?v (xs ! j) \<le> ?v (xs ! k)" if "j < length xs" for j using mx that by blast
    show ?thesis
    proof (cases "?v x > ?v (xs ! k)")
      case True
      have lt: "?v (xs ! j) < ?v x" if "j < length xs" for j using le [OF that] True by simp
      have "fold pickBest (xs @ [x]) None = Some (trim (source x), ?v x)"
        using True by (simp add: best pickBest_def)
      moreover have "\<forall>j < length (xs @ [x]). ?v ((xs @ [x]) ! j) \<le> ?v x"
        by (auto simp: nth_append less_Suc_eq lt less_imp_le)
      moreover have "\<forall>j < length xs. ?v ((xs @ [x]) ! j) < ?v x"
        by (auto simp: nth_append lt)
      ultimately show ?thesis
        by (intro exI [of _ "length xs"]) simp
    next
      case False
      have "fold pickBest (xs @ [x]) None = Some (trim (source (xs ! k)), ?v (xs ! k))"
        using False by (simp add: best pickBest_def)
      moreover have "\<forall>j < length (xs @ [x]). ?v ((xs @ [x]) ! j) \<le> ?v (xs ! k)"
        using False by (auto simp: nth_append less_Suc_eq le)
      moreover have "\<forall>j < k. ?v ((xs @ [x]) ! j) < ?v (xs ! k)"
        using fst k by (auto simp: nth_append)
      ultimately show ?thesis
        using k by (intro exI [of _ k]) (simp add: nth_append)
    qed
  qed
qed

lemmas parent_eval_defs = buildParentGroups_def parentStep_def finiteOrZero_def incoming_def

text \<open>
  Claim C7, as the code has it. For every node with at least one incoming row, the
  dominant parent is the source of the first incoming row, in row order, whose
  \<^verbatim>\<open>currentPeriod\<close> is largest, a non-finite \<^verbatim>\<open>currentPeriod\<close> counting as 0: no
  incoming row counts more than the chosen one, and every incoming row before it counts
  strictly less, so of two rows that tie the earlier one gives the parent.
\<close>

theorem dominant_parent_first_largest:
  assumes "incoming t rows \<noteq> []"
  shows "\<exists>k < length (incoming t rows).
           map_of (parentByNode (buildParentGroups rows)) t
             = Some (trim (source (incoming t rows ! k)))
         \<and> (\<forall>j < length (incoming t rows).
               finiteOrZero (currentPeriod (incoming t rows ! j))
                 \<le> finiteOrZero (currentPeriod (incoming t rows ! k)))
         \<and> (\<forall>j < k. finiteOrZero (currentPeriod (incoming t rows ! j))
                      < finiteOrZero (currentPeriod (incoming t rows ! k)))"
proof -
  from fold_pickBest_first_max [OF assms] obtain k where
    "k < length (incoming t rows)"
    "fold pickBest (incoming t rows) None
       = Some (trim (source (incoming t rows ! k)), finiteOrZero (currentPeriod (incoming t rows ! k)))"
    "\<forall>j < length (incoming t rows). finiteOrZero (currentPeriod (incoming t rows ! j))
                               \<le> finiteOrZero (currentPeriod (incoming t rows ! k))"
    "\<forall>j < k. finiteOrZero (currentPeriod (incoming t rows ! j))
                      < finiteOrZero (currentPeriod (incoming t rows ! k))"
    by blast
  then show ?thesis by (intro exI [of _ k]) (simp add: parentByNode_pick)
qed

theorem dominant_parent_first_largest_witness:
  "incoming ex_C ex_rows_tie \<noteq> []
   \<and> map (\<lambda>row. finiteOrZero (currentPeriod row)) (incoming ex_C ex_rows_tie) = [5, 5]
   \<and> map_of (parentByNode (buildParentGroups ex_rows_tie)) ex_C = Some ex_A"
proof -
  have inc: "incoming ex_C ex_rows_tie = [ex_row ex_A ex_C 5 5, ex_row ex_B ex_C 5 3]"
    by (simp add: ex_rows_tie_def incoming_def example_rows_defs trim_def isWhiteSpace_def)
  have ne: "incoming ex_C ex_rows_tie \<noteq> []" by (simp add: inc)
  have vals: "map (\<lambda>row. finiteOrZero (currentPeriod row)) (incoming ex_C ex_rows_tie) = [5, 5]"
    by (simp add: inc ex_row_def finiteOrZero_def)
  from dominant_parent_first_largest [OF ne] obtain k where
    k: "k < length (incoming ex_C ex_rows_tie)"
    and p: "map_of (parentByNode (buildParentGroups ex_rows_tie)) ex_C
              = Some (trim (source (incoming ex_C ex_rows_tie ! k)))"
    and before: "\<forall>j < k. finiteOrZero (currentPeriod (incoming ex_C ex_rows_tie ! j))
                        < finiteOrZero (currentPeriod (incoming ex_C ex_rows_tie ! k))"
    by blast
  have "k = 0"
  proof (rule ccontr)
    assume "k \<noteq> 0"
    with k have "k = 1" by (simp add: inc)
    with before have "finiteOrZero (currentPeriod (incoming ex_C ex_rows_tie ! 0))
                        < finiteOrZero (currentPeriod (incoming ex_C ex_rows_tie ! 1))"
      by blast
    then show False by (simp add: inc ex_row_def finiteOrZero_def)
  qed
  with p have "map_of (parentByNode (buildParentGroups ex_rows_tie)) ex_C = Some ex_A"
    by (simp add: inc ex_row_def trim_def isWhiteSpace_def ex_A_def)
  with ne vals show ?thesis by simp
qed

text \<open>
  The claim as stated speaks of the largest \<^verbatim>\<open>currentPeriod\<close>. Of the two rows into C,
  the one from A carries \<open>Infinity\<close>, which is larger than the 5 of the row from B; it
  counts as 0, and the dominant parent of C is B.
\<close>

theorem dominant_parent_infinite_counterexample:
  "js_gt (currentPeriod (ex_rows_infinite ! 0)) (currentPeriod (ex_rows_infinite ! 1))
   \<and> incoming ex_C ex_rows_infinite = ex_rows_infinite
   \<and> trim (source (ex_rows_infinite ! 0)) = ex_A
   \<and> map_of (parentByNode (buildParentGroups ex_rows_infinite)) ex_C = Some ex_B"
  by (simp add: ex_rows_infinite_def parent_eval_defs example_rows_defs trim_def isWhiteSpace_def
      Let_def)

section \<open>Balance Checker\<close>


















lemma isImbalanced_expected:
  "isImbalanced (expectedBalance n cs) \<longleftrightarrow>
     \<bar>flowSum target currentPeriod n cs - flowSum source currentPeriod n cs\<bar> > 1 / 1000
     \<or> \<bar>flowSum target previousPeriod n cs - flowSum source previousPeriod n cs\<bar> > 1 / 1000"
  by (simp add: isImbalanced_def expectedBalance_def js_sub_def epsilon_def Let_def)











section \<open>Settings migration\<close>














section \<open>Sibling reorder\<close>

lemma set_sortInsert [simp]: "set (sortInsert cmp x ys) = insert x (set ys)"
  by (induction ys) auto

lemma distinct_sortInsert [simp]: "distinct (sortInsert cmp x ys) \<longleftrightarrow> x \<notin> set ys \<and> distinct ys"
  by (induction ys) auto

lemma set_arraySort [simp]: "set (arraySort cmp xs) = set xs"
  unfolding arraySort_def by (induction xs) auto

lemma distinct_arraySort [simp]: "distinct (arraySort cmp xs) = distinct xs"
  unfolding arraySort_def by (induction xs) (auto simp flip: arraySort_def)

lemma length_sortInsert [simp]: "length (sortInsert cmp x ys) = Suc (length ys)"
  by (induction ys) auto

lemma length_arraySort [simp]: "length (arraySort cmp xs) = length xs"
  unfolding arraySort_def by (induction xs) auto















































end
